theory Spec2Isabelle
  imports Complex_Main "HOL-Library.Word" "HOL-Library.FSet"
begin

section \<open>JavaScript strings\<close>

text \<open>
  A JavaScript string is a sequence of 16-bit code units. The regular expression of the
  email gate has no \<open>u\<close> flag, so it works on code units as well.
\<close>

type_synonym jschar = "16 word"
type_synonym jsstring = "jschar list"

definition js :: "string \<Rightarrow> jsstring" where
  "js s = map of_char s"

text \<open>
  The code units that \<open>String.prototype.trim\<close> strips and that the class \<open>\s\<close> matches:
  ECMAScript's WhiteSpace and LineTerminator productions.
\<close>

definition isWhiteSpace :: "jschar \<Rightarrow> bool" where
  "isWhiteSpace c =
     (c = 0x09 \<or> c = 0x0A \<or> c = 0x0B \<or> c = 0x0C \<or> c = 0x0D \<or> c = 0x20 \<or> c = 0xA0
      \<or> c = 0x1680 \<or> (0x2000 \<le> c \<and> c \<le> 0x200A) \<or> c = 0x2028 \<or> c = 0x2029
      \<or> c = 0x202F \<or> c = 0x205F \<or> c = 0x3000 \<or> c = 0xFEFF)"

definition trim :: "jsstring \<Rightarrow> jsstring" where
  "trim s = rev (dropWhile isWhiteSpace (rev (dropWhile isWhiteSpace s)))"

definition chAt :: jschar where
  "chAt = 0x40"

definition chDot :: jschar where
  "chDot = 0x2E"

section \<open>Regular expressions\<close>

text \<open>
  The fragment of the regular-expression language that \<open>ContentControls.tsx\<close> uses:
  a literal character, the classes \<open>[^\s@]\<close> and \<open>\S\<close>, concatenation and \<open>+\<close>.
  \<open>RegExp.prototype.test\<close> on a pattern anchored by \<open>^\<close> and \<open>$\<close> (no \<open>m\<close> flag) asks
  whether the whole string is in the language, which Brzozowski derivatives decide.
\<close>

datatype cclass = Lit jschar | NotSpaceAt | NotSpace

fun cmatch :: "cclass \<Rightarrow> jschar \<Rightarrow> bool" where
  "cmatch (Lit a) c = (c = a)"
| "cmatch NotSpaceAt c = (\<not> isWhiteSpace c \<and> c \<noteq> chAt)"
| "cmatch NotSpace c = (\<not> isWhiteSpace c)"

datatype regex = Fail | Eps | Atom cclass | Seq regex regex | Alt regex regex | Star regex

definition Plus :: "regex \<Rightarrow> regex" where
  "Plus r = Seq r (Star r)"

fun nullable :: "regex \<Rightarrow> bool" where
  "nullable Fail = False"
| "nullable Eps = True"
| "nullable (Atom k) = False"
| "nullable (Seq r s) = (nullable r \<and> nullable s)"
| "nullable (Alt r s) = (nullable r \<or> nullable s)"
| "nullable (Star r) = True"

fun deriv :: "jschar \<Rightarrow> regex \<Rightarrow> regex" where
  "deriv c Fail = Fail"
| "deriv c Eps = Fail"
| "deriv c (Atom k) = (if cmatch k c then Eps else Fail)"
| "deriv c (Seq r s) =
     (if nullable r then Alt (Seq (deriv c r) s) (deriv c s) else Seq (deriv c r) s)"
| "deriv c (Alt r s) = Alt (deriv c r) (deriv c s)"
| "deriv c (Star r) = Seq (deriv c r) (Star r)"

fun test_anchored :: "regex \<Rightarrow> jsstring \<Rightarrow> bool" where
  "test_anchored r [] = nullable r"
| "test_anchored r (c # cs) = test_anchored (deriv c r) cs"

text \<open>The language of a regular expression, for stating what \<open>test_anchored\<close> decides.\<close>

inductive_set star :: "jsstring set \<Rightarrow> jsstring set" for L :: "jsstring set" where
  star_nil: "[] \<in> star L"
| star_app: "u \<in> L \<Longrightarrow> v \<in> star L \<Longrightarrow> u @ v \<in> star L"

fun lang :: "regex \<Rightarrow> jsstring set" where
  "lang Fail = {}"
| "lang Eps = {[]}"
| "lang (Atom k) = {[c] | c. cmatch k c}"
| "lang (Seq r s) = {u @ v | u v. u \<in> lang r \<and> v \<in> lang s}"
| "lang (Alt r s) = lang r \<union> lang s"
| "lang (Star r) = star (lang r)"

section \<open>The email gate (ContentControls.tsx, EmailGateModal)\<close>

text \<open>\<open>/^[^\s@]+@[^\s@]+\.[^\s@]+$/\<close>\<close>

definition emailRegex :: regex where
  "emailRegex =
     Seq (Plus (Atom NotSpaceAt))
       (Seq (Atom (Lit chAt))
         (Seq (Plus (Atom NotSpaceAt))
           (Seq (Atom (Lit chDot)) (Plus (Atom NotSpaceAt)))))"

definition validateEmail :: "jsstring \<Rightarrow> bool" where
  "validateEmail emailValue = test_anchored emailRegex emailValue"

text \<open>The two pieces of component state, \<open>useState("")\<close> each.\<close>

record modal_state =
  email :: jsstring
  error :: jsstring

definition msgEmpty :: jsstring where
  "msgEmpty = js ''Please enter your email address.''"

definition msgInvalid :: jsstring where
  "msgInvalid = js ''Please enter a valid email address.''"

text \<open>
  \<open>handleSubmit\<close>: the result is the new component state and the argument of the
  \<open>onSubmit\<close> callback, \<open>None\<close> when the callback is not invoked. An empty string is the
  only falsy string, so \<open>!trimmedEmail\<close> is \<open>trimmedEmail = []\<close>.
\<close>

definition handleSubmit :: "modal_state \<Rightarrow> modal_state \<times> jsstring option" where
  "handleSubmit m =
     (let m0 = m\<lparr>error := []\<rparr>;
          trimmedEmail = trim (email m)
      in if trimmedEmail = [] then (m0\<lparr>error := msgEmpty\<rparr>, None)
         else if \<not> validateEmail trimmedEmail then (m0\<lparr>error := msgInvalid\<rparr>, None)
         else (m0\<lparr>email := []\<rparr>, Some trimmedEmail))"

text \<open>
  The pattern in the words of the specification: non-space characters, \<open>@\<close>, non-space
  characters, a dot, non-space characters.
\<close>

definition specRegex :: regex where
  "specRegex =
     Seq (Plus (Atom NotSpace))
       (Seq (Atom (Lit chAt))
         (Seq (Plus (Atom NotSpace))
           (Seq (Atom (Lit chDot)) (Plus (Atom NotSpace)))))"

definition spec_pattern :: "jsstring \<Rightarrow> bool" where
  "spec_pattern s = test_anchored specRegex s"

section \<open>The carousel handle and the session state (page.tsx)\<close>

text \<open>
  The Swiper instance is an external collaborator. The record holds the fields that
  \<open>page.tsx\<close> reads or assigns, and \<open>touches\<close>, where the library keeps the start and the
  current position of a gesture and which \<open>page.tsx\<close> never reads. The calls made on the
  instance are returned as a list of commands, in the order the code issues them. An
  absent property is \<open>None\<close>. Pixel coordinates are finite doubles, given by the real
  numbers they denote; the resistance ratio holds the literals \<open>0\<close> and \<open>0.85\<close> only.
\<close>

record touchData =
  startX :: "real option"
  currentX :: "real option"

record swiper =
  activeIndex :: int
  allowSlideNext :: bool
  resistanceRatio :: real
  touchEventsData :: "touchData option"
  touches :: touchData

record touch =
  clientX :: real

datatype command =
    SlideTo int nat
  | Update
  | UpdateSlides
  | PreventDefault
  | ConsoleLog jsstring
  | SetTimeout nat command

datatype exn = TypeError

text \<open>
  The React state of \<open>Home\<close>: four \<open>useState\<close> cells and the set behind
  \<open>viewedItemsRef\<close>.
\<close>

record session =
  currentIndex :: int
  viewedCount :: nat
  hasUnlocked :: bool
  showEmailGate :: bool
  viewedItems :: "int fset"

definition initialSession :: session where
  "initialSession =
     \<lparr>currentIndex = 0, viewedCount = 1, hasUnlocked = False, showEmailGate = False,
      viewedItems = {|0|}\<rparr>"

subsection \<open>Effects\<close>

definition viewedEffect :: "session \<Rightarrow> session" where
  "viewedEffect s =
     (if currentIndex s |\<notin>| viewedItems s
      then (let items = finsert (currentIndex s) (viewedItems s)
            in s\<lparr>viewedItems := items, viewedCount := fcard items\<rparr>)
      else s)"

definition allowNextEffect :: "session \<Rightarrow> swiper option \<Rightarrow> swiper option \<times> command list" where
  "allowNextEffect s ref =
     (case ref of
        None \<Rightarrow> (None, [])
      | Some sw \<Rightarrow>
          (let canSlideNext = (hasUnlocked s \<or> currentIndex s < 10)
           in (Some (sw\<lparr>allowSlideNext := canSlideNext,
                         resistanceRatio := (if hasUnlocked s then 0.85 else 0)\<rparr>),
               [Update, UpdateSlides])))"

text \<open>
  After a handler has run React renders again and runs each effect whose dependency
  array changed: \<open>[currentIndex]\<close> for the first, \<open>[hasUnlocked, currentIndex]\<close> for the
  second, in this order.
\<close>

definition rerender ::
  "session \<Rightarrow> session \<Rightarrow> swiper option \<Rightarrow> session \<times> swiper option \<times> command list" where
  "rerender old new ref =
     (let s1 = (if currentIndex new \<noteq> currentIndex old then viewedEffect new else new)
      in if hasUnlocked new \<noteq> hasUnlocked old \<or> currentIndex new \<noteq> currentIndex old
         then (case allowNextEffect s1 ref of (ref', cmds) \<Rightarrow> (s1, ref', cmds))
         else (s1, ref, []))"

subsection \<open>Event handlers\<close>

definition handleSlideChange :: "session \<Rightarrow> swiper \<Rightarrow> session \<times> command list" where
  "handleSlideChange s sw =
     (let newIndex = activeIndex sw
      in if \<not> hasUnlocked s \<and> newIndex \<ge> 10
         then (s\<lparr>showEmailGate := True\<rparr>, [SlideTo 9 0])
         else (s\<lparr>currentIndex := newIndex\<rparr>, []))"

definition handleSlideChangeTransitionStart :: "session \<Rightarrow> swiper \<Rightarrow> session \<times> command list" where
  "handleSlideChangeTransitionStart s sw =
     (if hasUnlocked s then (s, [])
      else (let targetIndex = activeIndex sw
            in if targetIndex \<ge> 10 then (s\<lparr>showEmailGate := True\<rparr>, [SlideTo 9 0])
               else (s, [])))"

text \<open>
  \<open>a - b < -50\<close> on doubles. The subtraction rounds the exact difference to the nearest
  double, ties to the even significand. \<open>-50\<close> is a double with an even significand, and
  the next double below it is \<open>-50 - 1/2^47\<close>, so the rounded difference is below \<open>-50\<close>
  exactly when the exact one is below the midpoint \<open>-50 - 1/2^48\<close>.
\<close>

definition diff_below_minus50 :: "real \<Rightarrow> real \<Rightarrow> bool" where
  "diff_below_minus50 a b = (a - b < - 50 - 1 / 2 ^ 48)"

text \<open>
  \<open>touchEventsData.currentX || touchEventsData.startX\<close>: the left operand is falsy when
  it is absent and also when it is the number 0.
\<close>

definition handleTouchEnd :: "session \<Rightarrow> swiper \<Rightarrow> session \<times> command list" where
  "handleTouchEnd s sw =
     (if \<not> hasUnlocked s \<and> activeIndex sw = 9 then
        (case touchEventsData sw of
           None \<Rightarrow> (s, [])
         | Some td \<Rightarrow>
             (case startX td of
                None \<Rightarrow> (s, [])
              | Some x0 \<Rightarrow>
                  (let cx = (case currentX td of
                               None \<Rightarrow> x0
                             | Some c \<Rightarrow> if c = 0 then x0 else c)
                   in if diff_below_minus50 cx x0
                      then (s\<lparr>showEmailGate := True\<rparr>, [SlideTo 9 0])
                      else (s, []))))
      else (s, []))"

text \<open>
  The event is given by its \<open>touches\<close> property: \<open>None\<close> for an event that has none (a
  pointer or mouse event), where \<open>event.touches[0]\<close> throws at once. \<open>event.touches[0]\<close> of
  an empty list is \<open>undefined\<close>, and reading \<open>clientX\<close> of it throws, once the start
  position is known.
\<close>

definition handleTouchMove ::
  "session \<Rightarrow> swiper \<Rightarrow> touch list option \<Rightarrow> exn + session \<times> command list" where
  "handleTouchMove s sw event =
     (if \<not> hasUnlocked s \<and> activeIndex sw = 9 then
        (case event of
           None \<Rightarrow> Inl TypeError
         | Some ts \<Rightarrow>
             (case touchEventsData sw of
                None \<Rightarrow> Inr (s, [])
              | Some td \<Rightarrow>
                  (case startX td of
                     None \<Rightarrow> Inr (s, [])
                   | Some x0 \<Rightarrow>
                       (case ts of
                          [] \<Rightarrow> Inl TypeError
                        | t # _ \<Rightarrow>
                            (if diff_below_minus50 (clientX t) x0
                             then Inr (s\<lparr>showEmailGate := True\<rparr>, [PreventDefault])
                             else Inr (s, []))))))
      else Inr (s, []))"

definition handleEmailSubmit ::
  "session \<Rightarrow> swiper option \<Rightarrow> jsstring \<Rightarrow> session \<times> swiper option \<times> command list" where
  "handleEmailSubmit s ref emailArg =
     (let s' = s\<lparr>hasUnlocked := True, showEmailGate := False\<rparr>
      in case ref of
           None \<Rightarrow> (s', None, [ConsoleLog emailArg])
         | Some sw \<Rightarrow>
             (s', Some (sw\<lparr>allowSlideNext := True\<rparr>),
              [ConsoleLog emailArg, Update]
                @ (if currentIndex s = 9 then [SetTimeout 100 (SlideTo 10 300)] else [])))"

section \<open>The component as a transition system\<close>

text \<open>
  The whole of \<open>Home\<close>: its React state and the \<open>swiperRef\<close> cell. The events are the
  callbacks wired in the JSX. A carousel event carries what the instance reports when it
  fires (its active index, its \<open>touchEventsData\<close> and \<open>touches\<close>, the browser's touch
  list); the instance that calls the handler is the one \<open>onSwiper\<close> stored, so no carousel
  event occurs while the cell is empty. \<open>OnSwiper\<close> is the mount: the carousel calls
  \<open>onSwiper\<close> while it mounts, and the effects of \<open>Home\<close> then run for the first time, with
  the cell set. \<open>GateSubmit raw\<close> is a submission of the gate's form with \<open>raw\<close> in its
  input field; \<open>EmailGateModal\<close> renders nothing while \<open>isOpen\<close> is false, so there is no
  form to submit then.
\<close>

record app =
  page :: session
  swiperRef :: "swiper option"

definition initialApp :: app where
  "initialApp = \<lparr>page = initialSession, swiperRef = None\<rparr>"

datatype event =
    OnSwiper swiper
  | SlideChange int
  | SlideChangeTransitionStart int
  | TouchMove int "touchData option" touchData "touch list option"
  | TouchEnd int "touchData option" touchData
  | GateSubmit jsstring

definition finish :: "app \<Rightarrow> swiper option \<Rightarrow> session \<times> command list \<Rightarrow> app \<times> command list" where
  "finish \<sigma> ref r =
     (case r of (s', cmds) \<Rightarrow>
        (case rerender (page \<sigma>) s' ref of (s'', ref', cmds') \<Rightarrow>
           (\<lparr>page = s'', swiperRef = ref'\<rparr>, cmds @ cmds')))"

fun step :: "app \<Rightarrow> event \<Rightarrow> app \<times> command list" where
  "step \<sigma> (OnSwiper sw) =
     (let s1 = viewedEffect (page \<sigma>)
      in case allowNextEffect s1 (Some (sw\<lparr>allowSlideNext := True\<rparr>)) of
           (ref', cmds) \<Rightarrow> (\<lparr>page = s1, swiperRef = ref'\<rparr>, cmds))"
| "step \<sigma> (SlideChange i) =
     (case swiperRef \<sigma> of
        None \<Rightarrow> (\<sigma>, [])
      | Some sw0 \<Rightarrow>
          (let sw = sw0\<lparr>activeIndex := i\<rparr>
           in finish \<sigma> (Some sw) (handleSlideChange (page \<sigma>) sw)))"
| "step \<sigma> (SlideChangeTransitionStart i) =
     (case swiperRef \<sigma> of
        None \<Rightarrow> (\<sigma>, [])
      | Some sw0 \<Rightarrow>
          (let sw = sw0\<lparr>activeIndex := i\<rparr>
           in finish \<sigma> (Some sw) (handleSlideChangeTransitionStart (page \<sigma>) sw)))"
| "step \<sigma> (TouchMove i td tch event) =
     (case swiperRef \<sigma> of
        None \<Rightarrow> (\<sigma>, [])
      | Some sw0 \<Rightarrow>
          (let sw = sw0\<lparr>activeIndex := i, touchEventsData := td, touches := tch\<rparr>
           in case handleTouchMove (page \<sigma>) sw event of
                Inl e \<Rightarrow> (\<sigma>\<lparr>swiperRef := Some sw\<rparr>, [])
              | Inr r \<Rightarrow> finish \<sigma> (Some sw) r))"
| "step \<sigma> (TouchEnd i td tch) =
     (case swiperRef \<sigma> of
        None \<Rightarrow> (\<sigma>, [])
      | Some sw0 \<Rightarrow>
          (let sw = sw0\<lparr>activeIndex := i, touchEventsData := td, touches := tch\<rparr>
           in finish \<sigma> (Some sw) (handleTouchEnd (page \<sigma>) sw)))"
| "step \<sigma> (GateSubmit raw) =
     (if \<not> showEmailGate (page \<sigma>) then (\<sigma>, [])
      else (case snd (handleSubmit \<lparr>email = raw, error = []\<rparr>) of
              None \<Rightarrow> (\<sigma>, [])
            | Some trimmedEmail \<Rightarrow>
                (case handleEmailSubmit (page \<sigma>) (swiperRef \<sigma>) trimmedEmail of
                   (s', ref, cmds) \<Rightarrow> finish \<sigma> ref (s', cmds))))"

fun exec :: "app \<Rightarrow> event list \<Rightarrow> app" where
  "exec \<sigma> [] = \<sigma>"
| "exec \<sigma> (e # es) = exec (fst (step \<sigma> e)) es"

inductive reachable :: "app \<Rightarrow> bool" where
  reach_init: "reachable initialApp"
| reach_step: "reachable \<sigma> \<Longrightarrow> reachable (fst (step \<sigma> e))"

text \<open>
  An attempt to settle on index 10 or beyond, as reported to either of the two slide
  handlers.
\<close>

fun beyond_limit :: "event \<Rightarrow> bool" where
  "beyond_limit (SlideChange i) = (i \<ge> 10)"
| "beyond_limit (SlideChangeTransitionStart i) = (i \<ge> 10)"
| "beyond_limit _ = False"

text \<open>
  The index is outside the catalog. \<open>contentData\<close> is not among the sources, so its
  length is a parameter.
\<close>

definition out_of_range :: "nat \<Rightarrow> int \<Rightarrow> bool" where
  "out_of_range catalogLength i = (i < 0 \<or> i \<ge> int catalogLength)"

text \<open>The commands issued to the carousel along a run, in order.\<close>

fun issued :: "app \<Rightarrow> event list \<Rightarrow> command list" where
  "issued \<sigma> [] = []"
| "issued \<sigma> (e # es) = snd (step \<sigma> e) @ issued (fst (step \<sigma> e)) es"

subsection \<open>Invariants\<close>

text \<open>The gating invariant of the session state.\<close>

definition gate_inv :: "session \<Rightarrow> bool" where
  "gate_inv s =
     ((currentIndex s \<le> 9 \<or> hasUnlocked s) \<and> \<not> (showEmailGate s \<and> hasUnlocked s))"

text \<open>A visible gate presupposes a carousel: only carousel events open it.\<close>

definition gate_mounted :: "app \<Rightarrow> bool" where
  "gate_mounted \<sigma> = (showEmailGate (page \<sigma>) \<longrightarrow> swiperRef \<sigma> \<noteq> None)"

text \<open>Once unlocked and closed, the session stays so.\<close>

definition unlocked_closed :: "session \<Rightarrow> bool" where
  "unlocked_closed s = (hasUnlocked s \<and> \<not> showEmailGate s)"

text \<open>The current position has been recorded and the count is that of the set.\<close>

definition coherent :: "session \<Rightarrow> bool" where
  "coherent s = (currentIndex s |\<in>| viewedItems s \<and> viewedCount s = fcard (viewedItems s))"

text \<open>What the second effect establishes on the carousel.\<close>

definition flags_ok :: "app \<Rightarrow> bool" where
  "flags_ok \<sigma> =
     (map_option allowSlideNext (swiperRef \<sigma>)
        = Some (hasUnlocked (page \<sigma>) \<or> currentIndex (page \<sigma>) < 10)
      \<and> map_option resistanceRatio (swiperRef \<sigma>)
        = Some (if hasUnlocked (page \<sigma>) then 0.85 else 0))"

text \<open>Either no carousel is mounted, or its flags are those the effect computes.\<close>

definition flags_standing :: "app \<Rightarrow> bool" where
  "flags_standing \<sigma> = (swiperRef \<sigma> = None \<or> flags_ok \<sigma>)"

subsection \<open>A sample session\<close>

text \<open>
  A carousel as the library hands it to \<open>onSwiper\<close>, its \<open>touchEventsData\<close> without
  \<open>startX\<close> and \<open>currentX\<close>, and the states of the run: mount, slide to index 9, attempt
  index 10, submit \<open>a@b.co\<close>.
\<close>

definition sampleSwiper :: swiper where
  "sampleSwiper =
     \<lparr>activeIndex = 0, allowSlideNext = True, resistanceRatio = 0,
      touchEventsData = Some \<lparr>startX = None, currentX = None\<rparr>,
      touches = \<lparr>startX = Some 0, currentX = Some 0\<rparr>\<rparr>"

definition mountedApp :: app where
  "mountedApp = \<lparr>page = initialSession, swiperRef = Some sampleSwiper\<rparr>"

definition lockedAtNine :: app where
  "lockedAtNine =
     \<lparr>page = \<lparr>currentIndex = 9, viewedCount = 2, hasUnlocked = False, showEmailGate = False,
              viewedItems = {|9, 0|}\<rparr>,
      swiperRef = Some (sampleSwiper\<lparr>activeIndex := 9\<rparr>)\<rparr>"

definition gatedApp :: app where
  "gatedApp =
     \<lparr>page = \<lparr>currentIndex = 9, viewedCount = 2, hasUnlocked = False, showEmailGate = True,
              viewedItems = {|9, 0|}\<rparr>,
      swiperRef = Some (sampleSwiper\<lparr>activeIndex := 10\<rparr>)\<rparr>"

definition unlockedApp :: app where
  "unlockedApp =
     \<lparr>page = \<lparr>currentIndex = 9, viewedCount = 2, hasUnlocked = True, showEmailGate = False,
              viewedItems = {|9, 0|}\<rparr>,
      swiperRef = Some (sampleSwiper\<lparr>activeIndex := 10, resistanceRatio := 0.85\<rparr>)\<rparr>"

text \<open>
  A state that no run produces: the initial session with a carousel whose flags are not
  those of the effect.
\<close>

definition staleApp :: app where
  "staleApp =
     \<lparr>page = initialSession,
      swiperRef = Some (sampleSwiper\<lparr>allowSlideNext := False, resistanceRatio := 1\<rparr>)\<rparr>"

section \<open>What the matcher decides\<close>

lemma nullable_lang: "nullable r \<longleftrightarrow> [] \<in> lang r"
  by (induction r) (auto intro: star.star_nil)

lemma star_cons_split:
  assumes "w \<in> star L" "w = c # t"
  shows "\<exists>u v. t = u @ v \<and> c # u \<in> L \<and> v \<in> star L"
  using assms
proof (induction arbitrary: t rule: star.induct)
  case star_nil
  then show ?case by simp
next
  case (star_app u v)
  show ?case
  proof (cases u)
    case Nil
    with star_app show ?thesis by simp
  next
    case (Cons a u')
    with star_app.prems have "c = a" "t = u' @ v" by simp_all
    with Cons star_app.hyps show ?thesis by blast
  qed
qed

lemma star_cons_iff:
  "c # t \<in> star L \<longleftrightarrow> (\<exists>u v. t = u @ v \<and> c # u \<in> L \<and> v \<in> star L)"
proof
  assume "c # t \<in> star L"
  then show "\<exists>u v. t = u @ v \<and> c # u \<in> L \<and> v \<in> star L"
    using star_cons_split by blast
next
  assume "\<exists>u v. t = u @ v \<and> c # u \<in> L \<and> v \<in> star L"
  then obtain u v where "t = u @ v" "c # u \<in> L" "v \<in> star L" by blast
  then show "c # t \<in> star L"
    using star.star_app [of "c # u" L v] by simp
qed

lemma deriv_lang: "w \<in> lang (deriv c r) \<longleftrightarrow> c # w \<in> lang r"
proof (induction r arbitrary: w)
  case (Seq r s)
  show ?case
  proof
    assume "w \<in> lang (deriv c (Seq r s))"
    then consider (l) u v where "w = u @ v" "u \<in> lang (deriv c r)" "v \<in> lang s"
      | (r) "nullable r" "w \<in> lang (deriv c s)"
      by (auto split: if_splits)
    then show "c # w \<in> lang (Seq r s)"
    proof cases
      case l
      then have "c # u \<in> lang r" using Seq.IH(1) by simp
      with l have "(c # u) @ v \<in> lang (Seq r s)" by (simp del: append_Cons) blast
      with l show ?thesis by simp
    next
      case r
      then have "[] \<in> lang r" "c # w \<in> lang s" using Seq.IH(2) nullable_lang by simp_all
      then have "[] @ (c # w) \<in> lang (Seq r s)" by (simp del: append_Nil) blast
      then show ?thesis by simp
    qed
  next
    assume "c # w \<in> lang (Seq r s)"
    then obtain u v where uv: "c # w = u @ v" "u \<in> lang r" "v \<in> lang s" by auto
    show "w \<in> lang (deriv c (Seq r s))"
    proof (cases u)
      case Nil
      with uv have "nullable r" "w \<in> lang (deriv c s)"
        using Seq.IH(2) nullable_lang by simp_all
      then show ?thesis by simp
    next
      case (Cons a u')
      with uv have "w = u' @ v" "u' \<in> lang (deriv c r)" using Seq.IH(1) by simp_all
      with uv(3) show ?thesis by auto
    qed
  qed
next
  case (Star r)
  then show ?case by (auto simp: star_cons_iff)
qed auto

lemma test_anchored_lang: "test_anchored r w \<longleftrightarrow> w \<in> lang r"
  by (induction w arbitrary: r) (simp_all add: nullable_lang deriv_lang)

lemma star_atoms: "w \<in> star (lang (Atom k)) \<longleftrightarrow> (\<forall>c\<in>set w. cmatch k c)"
proof
  assume "w \<in> star (lang (Atom k))"
  then show "\<forall>c\<in>set w. cmatch k c"
    by (induction rule: star.induct) auto
next
  assume "\<forall>c\<in>set w. cmatch k c"
  then show "w \<in> star (lang (Atom k))"
  proof (induction w)
    case Nil
    show ?case by (rule star.star_nil)
  next
    case (Cons a w)
    then have "[a] \<in> lang (Atom k)" "w \<in> star (lang (Atom k))" by simp_all
    then have "[a] @ w \<in> star (lang (Atom k))" by (rule star.star_app)
    then show ?case by simp
  qed
qed

lemma lang_Plus_Atom: "w \<in> lang (Plus (Atom k)) \<longleftrightarrow> w \<noteq> [] \<and> (\<forall>c\<in>set w. cmatch k c)"
proof -
  have "w \<in> lang (Plus (Atom k)) \<longleftrightarrow> (\<exists>c v. w = [c] @ v \<and> cmatch k c \<and> v \<in> star (lang (Atom k)))"
    unfolding Plus_def by (simp del: append_Cons append_Nil) blast
  also have "\<dots> \<longleftrightarrow> (\<exists>c v. w = c # v \<and> cmatch k c \<and> v \<in> star (lang (Atom k)))"
    by simp
  also have "\<dots> \<longleftrightarrow> w \<noteq> [] \<and> (\<forall>c\<in>set w. cmatch k c)"
    by (cases w) (auto simp del: lang.simps simp: star_atoms)
  finally show ?thesis .
qed

lemma three_part_lang:
  "w \<in> lang (Seq (Plus (Atom k)) (Seq (Atom (Lit a)) (Seq (Plus (Atom k)) (Seq (Atom (Lit b)) (Plus (Atom k))))))
   \<longleftrightarrow> (\<exists>x y z. w = x @ a # y @ b # z \<and> x \<noteq> [] \<and> y \<noteq> [] \<and> z \<noteq> []
          \<and> (\<forall>c\<in>set x \<union> set y \<union> set z. cmatch k c))"
proof -
  have "w \<in> lang (Seq (Plus (Atom k)) (Seq (Atom (Lit a)) (Seq (Plus (Atom k)) (Seq (Atom (Lit b)) (Plus (Atom k))))))
    \<longleftrightarrow> (\<exists>x y z. w = x @ [a] @ y @ [b] @ z \<and> x \<in> lang (Plus (Atom k)) \<and> y \<in> lang (Plus (Atom k)) \<and> z \<in> lang (Plus (Atom k)))"
    by (simp del: append_Cons append_Nil) blast
  also have "\<dots> \<longleftrightarrow> (\<exists>x y z. w = x @ a # y @ b # z \<and> x \<noteq> [] \<and> y \<noteq> [] \<and> z \<noteq> []
          \<and> (\<forall>c\<in>set x \<union> set y \<union> set z. cmatch k c))"
    by (simp add: lang_Plus_Atom) blast
  finally show ?thesis .
qed

lemma validateEmail_shape:
  "validateEmail w \<longleftrightarrow>
     (\<exists>x y z. w = x @ chAt # y @ chDot # z \<and> x \<noteq> [] \<and> y \<noteq> [] \<and> z \<noteq> []
        \<and> (\<forall>c\<in>set x \<union> set y \<union> set z. \<not> isWhiteSpace c \<and> c \<noteq> chAt))"
  unfolding validateEmail_def emailRegex_def test_anchored_lang three_part_lang by simp

section \<open>Evaluation and unfolding\<close>

lemmas handler_defs =
  handleSlideChange_def handleSlideChangeTransitionStart_def handleTouchEnd_def
  handleTouchMove_def handleEmailSubmit_def

lemmas render_defs = finish_def rerender_def viewedEffect_def allowNextEffect_def

lemmas eval_defs = js_def validateEmail_def emailRegex_def Plus_def isWhiteSpace_def chAt_def chDot_def
  trim_def handleSubmit_def initialApp_def initialSession_def sampleSwiper_def
  render_defs handler_defs Let_def fcard_finsert_if

section \<open>Blocked navigation\<close>

lemma slide_change_blocked:
  "\<not> hasUnlocked s \<Longrightarrow> 10 \<le> activeIndex sw \<Longrightarrow>
     handleSlideChange s sw = (s\<lparr>showEmailGate := True\<rparr>, [SlideTo 9 0])"
  by (simp add: handleSlideChange_def)

lemma transition_start_blocked:
  "\<not> hasUnlocked s \<Longrightarrow> 10 \<le> activeIndex sw \<Longrightarrow>
     handleSlideChangeTransitionStart s sw = (s\<lparr>showEmailGate := True\<rparr>, [SlideTo 9 0])"
  by (simp add: handleSlideChangeTransitionStart_def)

lemma finish_same_deps:
  "currentIndex s' = currentIndex (page \<sigma>) \<Longrightarrow> hasUnlocked s' = hasUnlocked (page \<sigma>) \<Longrightarrow>
     finish \<sigma> ref (s', cmds) = (\<lparr>page = s', swiperRef = ref\<rparr>, cmds)"
  by (simp add: finish_def rerender_def)

lemma step_beyond_limit:
  assumes "swiperRef \<sigma> = Some sw0" "\<not> hasUnlocked (page \<sigma>)" "beyond_limit e"
  shows "page (fst (step \<sigma> e)) = (page \<sigma>)\<lparr>showEmailGate := True\<rparr>"
    and "snd (step \<sigma> e) = [SlideTo 9 0]"
    and "swiperRef (fst (step \<sigma> e)) \<noteq> None"
  using assms
  by (cases e; simp add: slide_change_blocked transition_start_blocked finish_same_deps)+

lemma exec_beyond_limit:
  assumes "swiperRef \<sigma> \<noteq> None" "\<not> hasUnlocked (page \<sigma>)" "\<forall>e\<in>set es. beyond_limit e"
  shows "page (exec \<sigma> es) = (if es = [] then page \<sigma> else (page \<sigma>)\<lparr>showEmailGate := True\<rparr>)
       \<and> issued \<sigma> es = replicate (length es) (SlideTo 9 0)"
  using assms
proof (induction es arbitrary: \<sigma>)
  case Nil
  then show ?case by simp
next
  case (Cons e es)
  from Cons.prems obtain sw0 where sw0: "swiperRef \<sigma> = Some sw0" by blast
  from Cons.prems have b: "beyond_limit e" by simp
  note st = step_beyond_limit [OF sw0 Cons.prems(2) b]
  have "page (exec (fst (step \<sigma> e)) es) =
          (if es = [] then page (fst (step \<sigma> e)) else (page (fst (step \<sigma> e)))\<lparr>showEmailGate := True\<rparr>)
        \<and> issued (fst (step \<sigma> e)) es = replicate (length es) (SlideTo 9 0)"
    using Cons.prems st by (intro Cons.IH) simp_all
  then show ?case by (simp add: st)
qed

text \<open>
  C1. While the session is locked, an event reporting an index of 10 or more to
  \<open>handleSlideChange\<close> or \<open>handleSlideChangeTransitionStart\<close> sets \<open>showEmailGate\<close>,
  issues \<open>slideTo(9, 0)\<close> and changes nothing else, \<open>currentIndex\<close> included; any
  non-empty run of such events ends in the session state that its first event alone
  produces.
\<close>

theorem beyond_limit_suspends:
  assumes "swiperRef \<sigma> \<noteq> None" and "\<not> hasUnlocked (page \<sigma>)"
    and "es \<noteq> []" and "\<forall>e\<in>set es. beyond_limit e"
  shows "page (exec \<sigma> es) = (page \<sigma>)\<lparr>showEmailGate := True\<rparr>
       \<and> issued \<sigma> es = replicate (length es) (SlideTo 9 0)
       \<and> page (exec \<sigma> es) = page (exec \<sigma> [hd es])"
proof -
  have all: "page (exec \<sigma> es) = (page \<sigma>)\<lparr>showEmailGate := True\<rparr>
       \<and> issued \<sigma> es = replicate (length es) (SlideTo 9 0)"
    using exec_beyond_limit [OF assms(1,2,4)] assms(3) by simp
  have "\<forall>e\<in>set [hd es]. beyond_limit e" using assms(3,4) by simp
  then have "page (exec \<sigma> [hd es]) = (page \<sigma>)\<lparr>showEmailGate := True\<rparr>"
    using exec_beyond_limit [OF assms(1,2), of "[hd es]"] by simp
  with all show ?thesis by simp
qed

theorem beyond_limit_suspends_witness:
  "swiperRef (exec initialApp [OnSwiper sampleSwiper, SlideChange 9]) \<noteq> None
   \<and> \<not> hasUnlocked (page (exec initialApp [OnSwiper sampleSwiper, SlideChange 9]))
   \<and> [SlideChange 10, SlideChangeTransitionStart 10, SlideChange 11] \<noteq> []
   \<and> beyond_limit (SlideChange 10) \<and> beyond_limit (SlideChangeTransitionStart 10)
   \<and> beyond_limit (SlideChange 11)
   \<and> page (exec (exec initialApp [OnSwiper sampleSwiper, SlideChange 9])
        [SlideChange 10, SlideChangeTransitionStart 10, SlideChange 11])
      = \<lparr>currentIndex = 9, viewedCount = 2, hasUnlocked = False, showEmailGate = True,
         viewedItems = {|9, 0|}\<rparr>
   \<and> issued (exec initialApp [OnSwiper sampleSwiper, SlideChange 9])
        [SlideChange 10, SlideChangeTransitionStart 10, SlideChange 11]
      = [SlideTo 9 0, SlideTo 9 0, SlideTo 9 0]"
  using beyond_limit_suspends [of "exec initialApp [OnSwiper sampleSwiper, SlideChange 9]"
      "[SlideChange 10, SlideChangeTransitionStart 10, SlideChange 11]"]
  by (simp add: eval_defs)

section \<open>The gating invariant\<close>

lemma viewedEffect_fields:
  "currentIndex (viewedEffect s) = currentIndex s"
  "hasUnlocked (viewedEffect s) = hasUnlocked s"
  "showEmailGate (viewedEffect s) = showEmailGate s"
  by (simp_all add: viewedEffect_def Let_def)

lemma page_finish:
  "page (fst (finish \<sigma> ref (s', cmds))) =
     (if currentIndex s' \<noteq> currentIndex (page \<sigma>) then viewedEffect s' else s')"
  by (simp add: finish_def rerender_def Let_def split: prod.splits)

lemma step_OnSwiper:
  "page (fst (step \<sigma> (OnSwiper sw))) = viewedEffect (page \<sigma>)"
  "swiperRef (fst (step \<sigma> (OnSwiper sw))) =
     Some (sw\<lparr>allowSlideNext := (hasUnlocked (page \<sigma>) \<or> currentIndex (page \<sigma>) < 10),
              resistanceRatio := (if hasUnlocked (page \<sigma>) then 0.85 else 0)\<rparr>)"
  "snd (step \<sigma> (OnSwiper sw)) = [Update, UpdateSlides]"
  by (simp_all add: allowNextEffect_def Let_def viewedEffect_fields)

lemma fst_handleEmailSubmit:
  "fst (handleEmailSubmit s ref a) = s\<lparr>hasUnlocked := True, showEmailGate := False\<rparr>"
  by (simp add: handleEmailSubmit_def Let_def split: option.splits)

lemma gate_inv_viewedEffect: "gate_inv (viewedEffect s) = gate_inv s"
  by (simp add: gate_inv_def viewedEffect_fields)

lemma gate_inv_finish:
  "gate_inv (fst r) \<Longrightarrow> gate_inv (page (fst (finish \<sigma> ref r)))"
  by (cases r) (simp add: page_finish gate_inv_viewedEffect)

lemma gate_inv_handlers:
  assumes "gate_inv s"
  shows "gate_inv (fst (handleSlideChange s sw))"
    and "gate_inv (fst (handleSlideChangeTransitionStart s sw))"
    and "gate_inv (fst (handleTouchEnd s sw))"
    and "handleTouchMove s sw ts = Inr r \<Longrightarrow> gate_inv (fst r)"
    and "gate_inv (fst (handleEmailSubmit s ref a))"
  using assms
  by (auto simp: gate_inv_def handler_defs Let_def split: option.splits list.splits if_splits)

lemma step_inv:
  assumes "gate_inv (page \<sigma>)"
  shows "gate_inv (page (fst (step \<sigma> e)))"
proof (cases e)
  case (OnSwiper sw)
  with assms show ?thesis
    by (simp del: step.simps add: step_OnSwiper gate_inv_viewedEffect)
next
  case (SlideChange i)
  with assms show ?thesis
    by (simp add: gate_inv_finish gate_inv_handlers Let_def split: option.splits)
next
  case (SlideChangeTransitionStart i)
  with assms show ?thesis
    by (simp add: gate_inv_finish gate_inv_handlers Let_def split: option.splits)
next
  case (TouchMove i td tch ev)
  with assms show ?thesis
    by (auto simp: gate_inv_finish gate_inv_handlers Let_def split: option.splits sum.splits)
next
  case (TouchEnd i td tch)
  with assms show ?thesis
    by (simp add: gate_inv_finish gate_inv_handlers Let_def split: option.splits)
next
  case (GateSubmit raw)
  have "gate_inv (page (fst (finish \<sigma> ref (s', cmds))))"
    if "handleEmailSubmit (page \<sigma>) (swiperRef \<sigma>) a = (s', ref, cmds)" for a s' ref cmds
  proof -
    from that have "s' = fst (handleEmailSubmit (page \<sigma>) (swiperRef \<sigma>) a)" by simp
    then have "gate_inv (fst (s', cmds))" using gate_inv_handlers(5) [OF assms] by simp
    then show ?thesis by (rule gate_inv_finish)
  qed
  with GateSubmit assms show ?thesis
    by (simp split: option.splits prod.splits)
qed

lemma reachable_inv: "reachable \<sigma> \<Longrightarrow> gate_inv (page \<sigma>)"
proof (induction rule: reachable.induct)
  case reach_init
  show ?case by (simp add: gate_inv_def initialApp_def initialSession_def)
next
  case (reach_step \<sigma> e)
  then show ?case by (simp add: step_inv)
qed

lemma reachable_exec: "reachable \<sigma> \<Longrightarrow> reachable (exec \<sigma> es)"
  by (induction es arbitrary: \<sigma>) (simp_all add: reachable.reach_step)

text \<open>
  C2. In every state reachable from the initial one, by any of the events,
  \<open>currentIndex\<close> is at most 9 unless \<open>hasUnlocked\<close> holds, and \<open>showEmailGate\<close> and
  \<open>hasUnlocked\<close> never hold together.
\<close>

theorem reachable_gate_invariant:
  "reachable \<sigma> \<Longrightarrow>
     (currentIndex (page \<sigma>) \<le> 9 \<or> hasUnlocked (page \<sigma>))
     \<and> \<not> (showEmailGate (page \<sigma>) \<and> hasUnlocked (page \<sigma>))"
  using reachable_inv [of \<sigma>] by (simp add: gate_inv_def)

theorem reachable_gate_invariant_witness:
  "reachable (exec initialApp [OnSwiper sampleSwiper, SlideChange 9, SlideChange 10])
   \<and> currentIndex (page (exec initialApp [OnSwiper sampleSwiper, SlideChange 9, SlideChange 10])) = 9
   \<and> showEmailGate (page (exec initialApp [OnSwiper sampleSwiper, SlideChange 9, SlideChange 10]))
   \<and> \<not> hasUnlocked (page (exec initialApp [OnSwiper sampleSwiper, SlideChange 9, SlideChange 10]))"
proof -
  have r: "reachable (exec initialApp [OnSwiper sampleSwiper, SlideChange 9, SlideChange 10])"
    by (rule reachable_exec [OF reachable.reach_init])
  have g: "showEmailGate (page (exec initialApp [OnSwiper sampleSwiper, SlideChange 9, SlideChange 10]))"
    by (simp add: eval_defs)
  have c: "currentIndex (page (exec initialApp [OnSwiper sampleSwiper, SlideChange 9, SlideChange 10])) = 9"
    by (simp add: eval_defs)
  from reachable_gate_invariant [OF r] g c r show ?thesis by simp
qed

section \<open>Gate submission\<close>

lemma validateEmail_Nil: "\<not> validateEmail []"
  by (simp add: validateEmail_def emailRegex_def Plus_def)

lemma snd_handleSubmit:
  "snd (handleSubmit m) =
     (if trim (email m) \<noteq> [] \<and> validateEmail (trim (email m)) then Some (trim (email m))
      else None)"
  by (simp add: handleSubmit_def Let_def)

lemma handleSubmit_rejects:
  "snd (handleSubmit m) = None \<Longrightarrow>
     fst (handleSubmit m) =
       m\<lparr>error := (if trim (email m) = [] then msgEmpty else msgInvalid)\<rparr>"
  by (simp add: handleSubmit_def Let_def split: if_splits)

lemma step_GateSubmit_rejected:
  "snd (handleSubmit m) = None \<Longrightarrow> step \<sigma> (GateSubmit (email m)) = (\<sigma>, [])"
proof -
  assume "snd (handleSubmit m) = None"
  moreover have "snd (handleSubmit \<lparr>email = email m, error = []\<rparr>) = snd (handleSubmit m)"
    by (simp add: snd_handleSubmit)
  ultimately show ?thesis by simp
qed

text \<open>
  The string \<open>a@b@c.d\<close> is not empty after trimming and has the shape the specification
  words describe (\<open>a@b\<close>, \<open>@\<close>, \<open>c\<close>, a dot, \<open>d\<close>), yet the gate rejects it: the classes
  of the regular expression exclude \<open>@\<close> as well as white space.
\<close>

theorem gate_pattern_counterexample:
  "trim (js ''a@b@c.d'') \<noteq> []
   \<and> spec_pattern (trim (js ''a@b@c.d''))
   \<and> snd (handleSubmit \<lparr>email = js ''a@b@c.d'', error = []\<rparr>) = None
   \<and> error (fst (handleSubmit \<lparr>email = js ''a@b@c.d'', error = []\<rparr>)) = msgInvalid"
  by (simp add: eval_defs spec_pattern_def specRegex_def)

text \<open>
  C3, amended. A submission is rejected exactly when the trimmed text is empty or is not
  of the form: one or more characters that are neither white space nor \<open>@\<close>, then \<open>@\<close>,
  then one or more such characters, then a dot, then one or more such characters. A
  rejection is a message in the component's \<open>error\<close> state, the callback is not invoked,
  and the whole state of the page, \<open>hasUnlocked\<close> and \<open>showEmailGate\<close> included, is
  unchanged.
\<close>

theorem gate_submit_validation:
  "(snd (handleSubmit m) = None) =
     (trim (email m) = []
      \<or> \<not> (\<exists>x y z. trim (email m) = x @ chAt # y @ chDot # z
             \<and> x \<noteq> [] \<and> y \<noteq> [] \<and> z \<noteq> []
             \<and> (\<forall>c\<in>set x \<union> set y \<union> set z. \<not> isWhiteSpace c \<and> c \<noteq> chAt)))
   \<and> (snd (handleSubmit m) = None \<longrightarrow>
        fst (handleSubmit m) =
          m\<lparr>error := (if trim (email m) = [] then msgEmpty else msgInvalid)\<rparr>
        \<and> step \<sigma> (GateSubmit (email m)) = (\<sigma>, []))"
proof -
  have "(snd (handleSubmit m) = None) =
     (trim (email m) = [] \<or> \<not> validateEmail (trim (email m)))"
    by (simp add: snd_handleSubmit)
  then show ?thesis
    using handleSubmit_rejects [of m] step_GateSubmit_rejected [of m \<sigma>]
    by (simp only: validateEmail_shape) blast
qed

theorem gate_submit_validation_witness:
  "snd (handleSubmit \<lparr>email = js ''not-an-email'', error = []\<rparr>) = None
   \<and> error (fst (handleSubmit \<lparr>email = js ''not-an-email'', error = []\<rparr>)) = msgInvalid
   \<and> showEmailGate (page (exec initialApp [OnSwiper sampleSwiper, SlideChange 9, SlideChange 10]))
   \<and> step (exec initialApp [OnSwiper sampleSwiper, SlideChange 9, SlideChange 10])
        (GateSubmit (js ''not-an-email''))
      = (exec initialApp [OnSwiper sampleSwiper, SlideChange 9, SlideChange 10], [])"
proof -
  have a: "snd (handleSubmit \<lparr>email = js ''not-an-email'', error = []\<rparr>) = None"
    by (simp add: eval_defs)
  have b: "trim (js ''not-an-email'') \<noteq> []"
    by (simp add: eval_defs)
  have g: "showEmailGate (page (exec initialApp [OnSwiper sampleSwiper, SlideChange 9, SlideChange 10]))"
    by (simp add: eval_defs)
  from gate_submit_validation [of "\<lparr>email = js ''not-an-email'', error = []\<rparr>"
      "exec initialApp [OnSwiper sampleSwiper, SlideChange 9, SlideChange 10]"] a b g
  show ?thesis by simp
qed

text \<open>
  C10. \<open>handleEmailSubmit\<close> sets \<open>hasUnlocked\<close> and clears \<open>showEmailGate\<close> for every
  argument; \<open>handleSubmit\<close> invokes the callback only with a non-empty trimmed text that
  passes \<open>validateEmail\<close>, and the argument is exactly the trimmed text.
\<close>

theorem unlock_callback_unvalidated:
  "hasUnlocked (fst (handleEmailSubmit s ref a))
   \<and> \<not> showEmailGate (fst (handleEmailSubmit s ref a))
   \<and> snd (handleSubmit m) =
       (if trim (email m) \<noteq> [] \<and> validateEmail (trim (email m)) then Some (trim (email m))
        else None)"
  by (simp add: fst_handleEmailSubmit snd_handleSubmit)

theorem unlock_callback_unvalidated_witness:
  "hasUnlocked (fst (handleEmailSubmit initialSession None (js ''not-an-email'')))
   \<and> \<not> showEmailGate (fst (handleEmailSubmit initialSession None (js ''not-an-email'')))
   \<and> \<not> validateEmail (js ''not-an-email'')
   \<and> snd (handleSubmit \<lparr>email = js '' a@b.co  '', error = []\<rparr>) = Some (js ''a@b.co'')"
proof -
  have v: "\<not> validateEmail (js ''not-an-email'')"
    by (simp add: eval_defs)
  have t: "trim (js '' a@b.co  '') = js ''a@b.co''"
    by (simp add: eval_defs)
  have w: "validateEmail (js ''a@b.co'')"
    by (simp add: eval_defs)
  have n: "js ''a@b.co'' \<noteq> []"
    by (simp add: js_def)
  from unlock_callback_unvalidated [of initialSession None "js ''not-an-email''"
      "\<lparr>email = js '' a@b.co  '', error = []\<rparr>"] v t w n
  show ?thesis by simp
qed

section \<open>Unlocking\<close>

lemma finish_mounted: "\<exists>sw'. swiperRef (fst (finish \<sigma> (Some sw) r)) = Some sw'"
  by (simp add: render_defs Let_def split: prod.splits)

lemma step_gate_mounted:
  assumes "gate_mounted \<sigma>"
  shows "gate_mounted (fst (step \<sigma> e))"
proof (cases e)
  case (GateSubmit raw)
  have "\<not> showEmailGate (page (fst (finish \<sigma> ref (s', cmds))))"
    if "handleEmailSubmit (page \<sigma>) (swiperRef \<sigma>) a = (s', ref, cmds)" for a s' ref cmds
  proof -
    from that have "s' = fst (handleEmailSubmit (page \<sigma>) (swiperRef \<sigma>) a)" by simp
    then show ?thesis by (simp add: page_finish viewedEffect_fields fst_handleEmailSubmit)
  qed
  with GateSubmit assms show ?thesis
    by (simp add: gate_mounted_def split: option.splits prod.splits)
next
  case (TouchMove i td tch ev)
  with assms show ?thesis
    by (auto simp: gate_mounted_def finish_mounted Let_def split: option.splits sum.splits)
next
  case (OnSwiper sw)
  then show ?thesis
    by (simp del: step.simps add: gate_mounted_def step_OnSwiper)
qed (use assms in \<open>auto simp: gate_mounted_def finish_mounted Let_def split: option.splits\<close>)

lemma reachable_gate_mounted: "reachable \<sigma> \<Longrightarrow> gate_mounted \<sigma>"
proof (induction rule: reachable.induct)
  case reach_init
  show ?case by (simp add: gate_mounted_def initialApp_def initialSession_def)
next
  case (reach_step \<sigma> e)
  then show ?case by (simp add: step_gate_mounted)
qed

lemma step_GateSubmit_accepted:
  assumes "showEmailGate (page \<sigma>)" "swiperRef \<sigma> = Some sw" "validateEmail (trim raw)"
  shows "page (fst (step \<sigma> (GateSubmit raw))) = (page \<sigma>)\<lparr>hasUnlocked := True, showEmailGate := False\<rparr>"
    and "hasUnlocked (page \<sigma>) \<Longrightarrow> snd (step \<sigma> (GateSubmit raw)) =
       [ConsoleLog (trim raw), Update]
         @ (if currentIndex (page \<sigma>) = 9 then [SetTimeout 100 (SlideTo 10 300)] else [])"
    and "\<not> hasUnlocked (page \<sigma>) \<Longrightarrow> snd (step \<sigma> (GateSubmit raw)) =
       [ConsoleLog (trim raw), Update]
         @ (if currentIndex (page \<sigma>) = 9 then [SetTimeout 100 (SlideTo 10 300)] else [])
         @ [Update, UpdateSlides]"
proof -
  have ne: "trim raw \<noteq> []" using assms(3) validateEmail_Nil by auto
  then have cb: "snd (handleSubmit \<lparr>email = raw, error = []\<rparr>) = Some (trim raw)"
    using assms(3) by (simp add: snd_handleSubmit)
  show "page (fst (step \<sigma> (GateSubmit raw))) = (page \<sigma>)\<lparr>hasUnlocked := True, showEmailGate := False\<rparr>"
    using assms(1,2) cb by (simp add: handleEmailSubmit_def render_defs Let_def)
  show "hasUnlocked (page \<sigma>) \<Longrightarrow> snd (step \<sigma> (GateSubmit raw)) =
       [ConsoleLog (trim raw), Update]
         @ (if currentIndex (page \<sigma>) = 9 then [SetTimeout 100 (SlideTo 10 300)] else [])"
    using assms(1,2) cb by (simp add: handleEmailSubmit_def render_defs Let_def)
  show "\<not> hasUnlocked (page \<sigma>) \<Longrightarrow> snd (step \<sigma> (GateSubmit raw)) =
       [ConsoleLog (trim raw), Update]
         @ (if currentIndex (page \<sigma>) = 9 then [SetTimeout 100 (SlideTo 10 300)] else [])
         @ [Update, UpdateSlides]"
    using assms(1,2) cb by (simp add: handleEmailSubmit_def render_defs Let_def)
qed

text \<open>
  C4. A valid email submitted while the gate is visible sets \<open>hasUnlocked\<close>, clears
  \<open>showEmailGate\<close>, and schedules \<open>slideTo(10, 300)\<close> after 100 ms exactly when
  \<open>currentIndex\<close> is 9 at that moment.
\<close>

theorem valid_submit_unlocks:
  assumes "reachable \<sigma>" and "showEmailGate (page \<sigma>)" and "validateEmail (trim raw)"
  shows "hasUnlocked (page (fst (step \<sigma> (GateSubmit raw))))
       \<and> \<not> showEmailGate (page (fst (step \<sigma> (GateSubmit raw))))
       \<and> snd (step \<sigma> (GateSubmit raw)) =
           [ConsoleLog (trim raw), Update]
             @ (if currentIndex (page \<sigma>) = 9 then [SetTimeout 100 (SlideTo 10 300)] else [])
             @ [Update, UpdateSlides]
       \<and> (SetTimeout 100 (SlideTo 10 300) \<in> set (snd (step \<sigma> (GateSubmit raw))))
           = (currentIndex (page \<sigma>) = 9)"
proof -
  from reachable_gate_mounted [OF assms(1)] assms(2)
  obtain sw where sw: "swiperRef \<sigma> = Some sw" by (auto simp: gate_mounted_def)
  from reachable_inv [OF assms(1)] assms(2) have locked: "\<not> hasUnlocked (page \<sigma>)"
    by (auto simp: gate_inv_def)
  note st = step_GateSubmit_accepted [OF assms(2) sw assms(3)]
  show ?thesis by (simp del: step.simps add: st(1) st(3) [OF locked])
qed

theorem valid_submit_unlocks_witness:
  "reachable (exec initialApp [OnSwiper sampleSwiper, SlideChange 9, SlideChange 10])
   \<and> showEmailGate (page (exec initialApp [OnSwiper sampleSwiper, SlideChange 9, SlideChange 10]))
   \<and> validateEmail (trim (js ''user@example.com''))
   \<and> currentIndex (page (exec initialApp [OnSwiper sampleSwiper, SlideChange 9, SlideChange 10])) = 9
   \<and> hasUnlocked (page (fst (step (exec initialApp [OnSwiper sampleSwiper, SlideChange 9, SlideChange 10])
        (GateSubmit (js ''user@example.com'')))))
   \<and> \<not> showEmailGate (page (fst (step (exec initialApp [OnSwiper sampleSwiper, SlideChange 9, SlideChange 10])
        (GateSubmit (js ''user@example.com'')))))
   \<and> snd (step (exec initialApp [OnSwiper sampleSwiper, SlideChange 9, SlideChange 10])
        (GateSubmit (js ''user@example.com'')))
      = [ConsoleLog (js ''user@example.com''), Update, SetTimeout 100 (SlideTo 10 300), Update,
         UpdateSlides]"
proof -
  have r: "reachable (exec initialApp [OnSwiper sampleSwiper, SlideChange 9, SlideChange 10])"
    by (rule reachable_exec [OF reachable.reach_init])
  have g: "showEmailGate (page (exec initialApp [OnSwiper sampleSwiper, SlideChange 9, SlideChange 10]))"
    by (simp add: eval_defs)
  have c: "currentIndex (page (exec initialApp [OnSwiper sampleSwiper, SlideChange 9, SlideChange 10])) = 9"
    by (simp add: eval_defs)
  have t: "trim (js ''user@example.com'') = js ''user@example.com''"
    by (simp add: eval_defs)
  have v: "validateEmail (trim (js ''user@example.com''))"
    unfolding t by (simp add: eval_defs)
  from valid_submit_unlocks [OF r g v] r g v c t show ?thesis by simp
qed

section \<open>The sample session\<close>

lemma sample_steps:
  "step initialApp (OnSwiper sampleSwiper) = (mountedApp, [Update, UpdateSlides])"
  "step mountedApp (SlideChange 9) = (lockedAtNine, [Update, UpdateSlides])"
  "step lockedAtNine (SlideChange 10) = (gatedApp, [SlideTo 9 0])"
  "step gatedApp (GateSubmit (js ''a@b.co'')) =
     (unlockedApp,
      [ConsoleLog (js ''a@b.co''), Update, SetTimeout 100 (SlideTo 10 300), Update, UpdateSlides])"
  by (simp_all add: mountedApp_def lockedAtNine_def gatedApp_def unlockedApp_def eval_defs)

lemma sample_runs:
  "exec initialApp [OnSwiper sampleSwiper] = mountedApp"
  "exec initialApp [OnSwiper sampleSwiper, SlideChange 9] = lockedAtNine"
  "exec initialApp [OnSwiper sampleSwiper, SlideChange 9, SlideChange 10] = gatedApp"
  "exec initialApp [OnSwiper sampleSwiper, SlideChange 9, SlideChange 10, GateSubmit (js ''a@b.co'')]
     = unlockedApp"
  by (simp_all del: step.simps add: sample_steps)

section \<open>After unlocking\<close>

lemma unlocked_handlers:
  assumes "hasUnlocked s"
  shows "handleSlideChange s sw = (s\<lparr>currentIndex := activeIndex sw\<rparr>, [])"
    and "handleSlideChangeTransitionStart s sw = (s, [])"
    and "handleTouchEnd s sw = (s, [])"
    and "handleTouchMove s sw ts = Inr (s, [])"
  using assms by (simp_all add: handler_defs)

lemma unlocked_closed_finish:
  "unlocked_closed (fst r) \<Longrightarrow> unlocked_closed (page (fst (finish \<sigma> ref r)))"
  by (cases r) (simp add: page_finish unlocked_closed_def viewedEffect_fields)

lemma step_unlocked_closed:
  assumes "unlocked_closed (page \<sigma>)"
  shows "unlocked_closed (page (fst (step \<sigma> e)))"
proof (cases e)
  case (GateSubmit raw)
  with assms show ?thesis by (simp add: unlocked_closed_def)
next
  case (TouchMove i td tch ev)
  with assms show ?thesis
    by (auto simp: unlocked_closed_def unlocked_handlers page_finish Let_def
        split: option.splits)
next
  case (OnSwiper sw)
  with assms show ?thesis
    by (simp del: step.simps add: unlocked_closed_def step_OnSwiper viewedEffect_fields)
qed (use assms in \<open>auto simp: unlocked_closed_def unlocked_handlers page_finish
      viewedEffect_fields Let_def split: option.splits\<close>)

lemma exec_unlocked_closed:
  "unlocked_closed (page \<sigma>) \<Longrightarrow> unlocked_closed (page (exec \<sigma> es))"
  by (induction es arbitrary: \<sigma>) (simp_all add: step_unlocked_closed)

text \<open>
  C5. From a state in which \<open>hasUnlocked\<close> holds and the gate is closed, no run of
  events, whatever the indices they report, makes \<open>showEmailGate\<close> true again, and
  \<open>hasUnlocked\<close> stays true.
\<close>

theorem unlocked_gate_stays_closed:
  assumes "hasUnlocked (page \<sigma>)" and "\<not> showEmailGate (page \<sigma>)"
  shows "hasUnlocked (page (exec \<sigma> es)) \<and> \<not> showEmailGate (page (exec \<sigma> es))"
  using exec_unlocked_closed [of \<sigma> es] assms by (simp add: unlocked_closed_def)

theorem unlocked_gate_stays_closed_witness:
  "hasUnlocked (page (exec initialApp
       [OnSwiper sampleSwiper, SlideChange 9, SlideChange 10, GateSubmit (js ''a@b.co'')]))
   \<and> \<not> showEmailGate (page (exec initialApp
       [OnSwiper sampleSwiper, SlideChange 9, SlideChange 10, GateSubmit (js ''a@b.co'')]))
   \<and> \<not> showEmailGate (page (exec (exec initialApp
       [OnSwiper sampleSwiper, SlideChange 9, SlideChange 10, GateSubmit (js ''a@b.co'')])
       [SlideChangeTransitionStart 10, SlideChange 10, SlideChange 11, SlideChange 12,
        SlideChange 9,
        TouchEnd 9 (Some \<lparr>startX = Some 200, currentX = Some 20\<rparr>)
          \<lparr>startX = Some 200, currentX = Some 20\<rparr>]))"
proof -
  have u: "hasUnlocked (page (exec initialApp
       [OnSwiper sampleSwiper, SlideChange 9, SlideChange 10, GateSubmit (js ''a@b.co'')]))"
    by (simp only: sample_runs) (simp add: unlockedApp_def)
  have g: "\<not> showEmailGate (page (exec initialApp
       [OnSwiper sampleSwiper, SlideChange 9, SlideChange 10, GateSubmit (js ''a@b.co'')]))"
    by (simp only: sample_runs) (simp add: unlockedApp_def)
  from unlocked_gate_stays_closed [OF u g] u g show ?thesis by (simp del: exec.simps)
qed

section \<open>Visited positions\<close>

lemma viewedItems_handlers:
  "viewedItems (fst (handleSlideChange s sw)) = viewedItems s"
  "viewedItems (fst (handleSlideChangeTransitionStart s sw)) = viewedItems s"
  "viewedItems (fst (handleTouchEnd s sw)) = viewedItems s"
  "handleTouchMove s sw ts = Inr r \<Longrightarrow> viewedItems (fst r) = viewedItems s"
  "viewedItems (fst (handleEmailSubmit s ref a)) = viewedItems s"
  by (auto simp: handler_defs Let_def split: option.splits list.splits if_splits)

lemma viewedItems_viewedEffect:
  "viewedItems (viewedEffect s) = finsert (currentIndex s) (viewedItems s)"
  by (auto simp: viewedEffect_def Let_def)

lemma viewedItems_finish:
  "viewedItems (fst r) = V \<Longrightarrow> V |\<subseteq>| viewedItems (page (fst (finish \<sigma> ref r)))"
  by (cases r) (auto simp: page_finish viewedItems_viewedEffect)

lemma step_viewedItems_mono: "viewedItems (page \<sigma>) |\<subseteq>| viewedItems (page (fst (step \<sigma> e)))"
proof (cases e)
  case (GateSubmit raw)
  have "viewedItems (page \<sigma>) |\<subseteq>| viewedItems (page (fst (finish \<sigma> ref (s', cmds))))"
    if "handleEmailSubmit (page \<sigma>) (swiperRef \<sigma>) a = (s', ref, cmds)" for a s' ref cmds
  proof -
    from that have "s' = fst (handleEmailSubmit (page \<sigma>) (swiperRef \<sigma>) a)" by simp
    then have "viewedItems (fst (s', cmds)) = viewedItems (page \<sigma>)"
      by (simp add: viewedItems_handlers)
    then show ?thesis by (rule viewedItems_finish)
  qed
  with GateSubmit show ?thesis by (simp split: option.splits prod.splits)
next
  case (TouchMove i td tch ev)
  then show ?thesis
    by (auto simp: Let_def split: option.splits sum.splits
        dest!: viewedItems_handlers(4) viewedItems_finish)
next
  case (OnSwiper sw)
  then show ?thesis
    by (auto simp del: step.simps simp: step_OnSwiper viewedItems_viewedEffect)
qed (auto simp: Let_def viewedItems_handlers split: option.splits intro!: viewedItems_finish)

lemma step_SlideChange_applied:
  assumes "swiperRef \<sigma> = Some sw0" "hasUnlocked (page \<sigma>) \<or> i < 10"
  shows "page (fst (step \<sigma> (SlideChange i))) =
           (if i = currentIndex (page \<sigma>) then page \<sigma>
            else viewedEffect ((page \<sigma>)\<lparr>currentIndex := i\<rparr>))"
    and "swiperRef (fst (step \<sigma> (SlideChange i))) \<noteq> None"
  using assms by (auto simp: handleSlideChange_def page_finish finish_mounted Let_def)

lemma coherent_viewedEffect:
  "viewedCount s = fcard (viewedItems s) \<Longrightarrow> coherent (viewedEffect (s\<lparr>currentIndex := i\<rparr>))"
  by (simp add: coherent_def viewedEffect_def Let_def)

lemma exec_slide_changes:
  assumes "swiperRef \<sigma> \<noteq> None" "coherent (page \<sigma>)" "\<forall>i\<in>set ts. i \<le> 9"
  shows "currentIndex (page (exec \<sigma> (map SlideChange ts))) = last (currentIndex (page \<sigma>) # ts)
       \<and> viewedItems (page (exec \<sigma> (map SlideChange ts)))
           = viewedItems (page \<sigma>) |\<union>| fset_of_list ts
       \<and> coherent (page (exec \<sigma> (map SlideChange ts)))"
  using assms
proof (induction ts arbitrary: \<sigma>)
  case Nil
  then show ?case by simp
next
  case (Cons i ts)
  from Cons.prems obtain sw0 where sw0: "swiperRef \<sigma> = Some sw0" by blast
  from Cons.prems have i: "hasUnlocked (page \<sigma>) \<or> i < 10" by simp
  note st = step_SlideChange_applied [OF sw0 i]
  let ?\<sigma>' = "fst (step \<sigma> (SlideChange i))"
  from Cons.prems(2) have vc: "viewedCount (page \<sigma>) = fcard (viewedItems (page \<sigma>))"
    by (simp add: coherent_def)
  have coh: "coherent (page ?\<sigma>')"
    unfolding st(1) using Cons.prems(2) by (simp add: coherent_viewedEffect [OF vc])
  have cur: "currentIndex (page ?\<sigma>') = i"
    unfolding st(1) by (simp add: viewedEffect_fields)
  have items: "viewedItems (page ?\<sigma>') = finsert i (viewedItems (page \<sigma>))"
    unfolding st(1) using Cons.prems(2) by (auto simp: viewedItems_viewedEffect coherent_def)
  have "currentIndex (page (exec ?\<sigma>' (map SlideChange ts))) = last (currentIndex (page ?\<sigma>') # ts)
       \<and> viewedItems (page (exec ?\<sigma>' (map SlideChange ts)))
           = viewedItems (page ?\<sigma>') |\<union>| fset_of_list ts
       \<and> coherent (page (exec ?\<sigma>' (map SlideChange ts)))"
    using Cons.prems(3) st(2) coh by (intro Cons.IH) simp_all
  then show ?case
    by (simp del: step.simps add: cur items)
qed

text \<open>
  C6. The session starts at index 0, which is the first position seen. After the carousel
  is mounted and reports the targets \<open>ts\<close>, all within 0..9, to \<open>handleSlideChange\<close>,
  \<open>currentIndex\<close> is the last target, \<open>viewedItems\<close> is the set of the positions seen and
  \<open>viewedCount\<close> is its size. No event, in any state, makes the set smaller, and a slide
  change to a position already in the set leaves its size as it is.
\<close>

theorem visited_tracks_targets:
  assumes "\<forall>i\<in>set ts. 0 \<le> i \<and> i \<le> 9"
  shows "currentIndex (page (exec initialApp (OnSwiper sw # map SlideChange ts))) = last (0 # ts)
       \<and> viewedItems (page (exec initialApp (OnSwiper sw # map SlideChange ts)))
           = fset_of_list (0 # ts)
       \<and> viewedCount (page (exec initialApp (OnSwiper sw # map SlideChange ts)))
           = fcard (fset_of_list (0 # ts))
       \<and> fcard (viewedItems (page \<sigma>)) \<le> fcard (viewedItems (page (fst (step \<sigma> e))))
       \<and> (j |\<in>| viewedItems (page \<sigma>) \<longrightarrow>
            fcard (viewedItems (page (fst (step \<sigma> (SlideChange j)))))
              = fcard (viewedItems (page \<sigma>)))"
proof -
  let ?\<sigma>0 = "fst (step initialApp (OnSwiper sw))"
  have m: "swiperRef ?\<sigma>0 \<noteq> None"
    by (simp del: step.simps add: step_OnSwiper)
  have p: "page ?\<sigma>0 = initialSession"
    by (simp del: step.simps add: step_OnSwiper initialApp_def initialSession_def viewedEffect_def)
  have c: "coherent (page ?\<sigma>0)"
    unfolding p by (simp add: coherent_def initialSession_def fcard_finsert_if)
  have b: "\<forall>i\<in>set ts. i \<le> 9" using assms by simp
  note run = exec_slide_changes [OF m c b]
  have run1: "currentIndex (page (exec initialApp (OnSwiper sw # map SlideChange ts))) = last (0 # ts)"
    using run unfolding p by (simp del: step.simps add: initialSession_def)
  have run2: "viewedItems (page (exec initialApp (OnSwiper sw # map SlideChange ts)))
           = fset_of_list (0 # ts)"
    using run unfolding p by (simp del: step.simps add: initialSession_def)
  have run3: "viewedCount (page (exec initialApp (OnSwiper sw # map SlideChange ts)))
           = fcard (fset_of_list (0 # ts))"
    using run run2 by (simp del: step.simps add: coherent_def)
  have mono: "fcard (viewedItems (page \<sigma>)) \<le> fcard (viewedItems (page (fst (step \<sigma> e))))"
    by (rule fcard_mono [OF step_viewedItems_mono])
  have rev: "fcard (viewedItems (page (fst (step \<sigma> (SlideChange j)))))
              = fcard (viewedItems (page \<sigma>))" if "j |\<in>| viewedItems (page \<sigma>)"
    using that
    by (auto simp: handleSlideChange_def page_finish viewedItems_viewedEffect Let_def finsert_absorb
        split: option.splits)
  from run1 run2 run3 mono rev show ?thesis by blast
qed

theorem visited_tracks_targets_witness:
  "currentIndex (page (exec initialApp (OnSwiper sampleSwiper # map SlideChange [1, 2, 3, 2, 3]))) = 3
   \<and> viewedItems (page (exec initialApp (OnSwiper sampleSwiper # map SlideChange [1, 2, 3, 2, 3])))
       = {|0, 1, 2, 3|}
   \<and> viewedCount (page (exec initialApp (OnSwiper sampleSwiper # map SlideChange [1, 2, 3, 2, 3]))) = 4
   \<and> 2 |\<in>| viewedItems (page (exec initialApp (OnSwiper sampleSwiper # map SlideChange [1, 2, 3])))
   \<and> fcard (viewedItems (page (fst (step
        (exec initialApp (OnSwiper sampleSwiper # map SlideChange [1, 2, 3])) (SlideChange 2))))) = 4"
proof -
  have h: "\<forall>i\<in>set [1, 2, 3, 2, 3 :: int]. 0 \<le> i \<and> i \<le> 9" by simp
  have v: "viewedItems (page (exec initialApp (OnSwiper sampleSwiper # map SlideChange [1, 2, 3])))
       = {|3, 2, 1, 0|}"
    by (simp add: eval_defs)
  have e: "{|0, 1, 2, 3, 2, 3 :: int|} = {|0, 1, 2, 3|}" by auto
  have c: "fcard {|0, 1, 2, 3 :: int|} = 4" "fcard {|3, 2, 1, 0 :: int|} = 4"
    by (simp_all add: fcard_finsert_if)
  from visited_tracks_targets [OF h, of sampleSwiper
      "exec initialApp (OnSwiper sampleSwiper # map SlideChange [1, 2, 3])" "SlideChange 2" 2] h v
  show ?thesis by (simp del: step.simps exec.simps add: e c)
qed

section \<open>Targets outside the catalog\<close>

text \<open>
  Two targets outside a catalog of 20 items that are not ignored: \<open>-1\<close> in the mounted
  initial state becomes \<open>currentIndex\<close> and enters \<open>viewedItems\<close>, and 20 in the unlocked
  state becomes \<open>currentIndex\<close>.
\<close>

theorem out_of_range_counterexample:
  "out_of_range 20 (- 1)
   \<and> swiperRef mountedApp \<noteq> None
   \<and> currentIndex (page mountedApp) = 0
   \<and> currentIndex (page (fst (step mountedApp (SlideChange (- 1))))) = - 1
   \<and> viewedItems (page (fst (step mountedApp (SlideChange (- 1))))) = {|- 1, 0|}
   \<and> out_of_range 20 20
   \<and> hasUnlocked (page unlockedApp)
   \<and> currentIndex (page unlockedApp) = 9
   \<and> currentIndex (page (fst (step unlockedApp (SlideChange 20)))) = 20"
  by (simp add: out_of_range_def mountedApp_def unlockedApp_def eval_defs)

lemma step_SlideChange_page:
  assumes "swiperRef \<sigma> = Some sw0"
  shows "page (fst (step \<sigma> (SlideChange i))) =
           (if \<not> hasUnlocked (page \<sigma>) \<and> 10 \<le> i then (page \<sigma>)\<lparr>showEmailGate := True\<rparr>
            else if i = currentIndex (page \<sigma>) then page \<sigma>
            else viewedEffect ((page \<sigma>)\<lparr>currentIndex := i\<rparr>))"
  using assms by (auto simp: handleSlideChange_def page_finish Let_def)

text \<open>
  C7, amended. \<open>handleSlideChange\<close> has no range check; a target outside the catalog is
  handled like any other. While locked, a target of 10 or more sets \<open>showEmailGate\<close> and
  changes nothing else. In every other case, the unlocked state and negative targets
  included, the target is applied: \<open>currentIndex\<close> becomes the target, the target joins
  \<open>viewedItems\<close>, and \<open>hasUnlocked\<close> and \<open>showEmailGate\<close> keep their values.
\<close>

theorem out_of_range_not_checked:
  assumes "swiperRef \<sigma> \<noteq> None" and "out_of_range catalogLength i"
  shows "if \<not> hasUnlocked (page \<sigma>) \<and> 10 \<le> i
         then page (fst (step \<sigma> (SlideChange i))) = (page \<sigma>)\<lparr>showEmailGate := True\<rparr>
         else currentIndex (page (fst (step \<sigma> (SlideChange i)))) = i
            \<and> viewedItems (page (fst (step \<sigma> (SlideChange i))))
                = (if i = currentIndex (page \<sigma>) then viewedItems (page \<sigma>)
                   else finsert i (viewedItems (page \<sigma>)))
            \<and> hasUnlocked (page (fst (step \<sigma> (SlideChange i)))) = hasUnlocked (page \<sigma>)
            \<and> showEmailGate (page (fst (step \<sigma> (SlideChange i)))) = showEmailGate (page \<sigma>)"
proof -
  from assms(1) obtain sw0 where sw0: "swiperRef \<sigma> = Some sw0" by blast
  show ?thesis
    unfolding step_SlideChange_page [OF sw0]
    by (simp add: viewedEffect_fields viewedItems_viewedEffect)
qed

theorem out_of_range_not_checked_witness:
  "swiperRef gatedApp \<noteq> None \<and> out_of_range 20 25 \<and> \<not> hasUnlocked (page gatedApp)
   \<and> page (fst (step gatedApp (SlideChange 25))) = (page gatedApp)\<lparr>showEmailGate := True\<rparr>
   \<and> swiperRef unlockedApp \<noteq> None \<and> hasUnlocked (page unlockedApp)
   \<and> currentIndex (page (fst (step unlockedApp (SlideChange 25)))) = 25
   \<and> viewedItems (page (fst (step unlockedApp (SlideChange 25)))) = {|25, 9, 0|}"
proof -
  have a: "swiperRef gatedApp \<noteq> None" "\<not> hasUnlocked (page gatedApp)"
    by (simp_all add: gatedApp_def)
  have b: "swiperRef unlockedApp \<noteq> None" "hasUnlocked (page unlockedApp)"
    "currentIndex (page unlockedApp) = 9" "viewedItems (page unlockedApp) = {|9, 0|}"
    by (simp_all add: unlockedApp_def)
  have c: "out_of_range 20 25" by (simp add: out_of_range_def)
  from out_of_range_not_checked [OF a(1) c] out_of_range_not_checked [OF b(1) c] a b c
  show ?thesis by (simp del: step.simps)
qed

section \<open>The carousel's flags\<close>

lemma finish_flags:
  assumes "hasUnlocked s' \<noteq> hasUnlocked (page \<sigma>) \<or> currentIndex s' \<noteq> currentIndex (page \<sigma>)"
  shows "swiperRef (fst (finish \<sigma> (Some sw) (s', cmds))) =
           Some (sw\<lparr>allowSlideNext := (hasUnlocked s' \<or> currentIndex s' < 10),
                    resistanceRatio := (if hasUnlocked s' then 0.85 else 0)\<rparr>)"
  using assms by (auto simp: render_defs Let_def)

lemma finish_deps:
  "hasUnlocked (page (fst (finish \<sigma> ref (s', cmds)))) = hasUnlocked s'"
  "currentIndex (page (fst (finish \<sigma> ref (s', cmds)))) = currentIndex s'"
  by (simp_all add: page_finish viewedEffect_fields)

lemma finish_flags_ok:
  assumes "hasUnlocked (page (fst (finish \<sigma> (Some sw) r))) \<noteq> hasUnlocked (page \<sigma>)
         \<or> currentIndex (page (fst (finish \<sigma> (Some sw) r))) \<noteq> currentIndex (page \<sigma>)"
  shows "flags_ok (fst (finish \<sigma> (Some sw) r))"
proof (cases r)
  case (Pair s' cmds)
  with assms have d: "hasUnlocked s' \<noteq> hasUnlocked (page \<sigma>) \<or> currentIndex s' \<noteq> currentIndex (page \<sigma>)"
    by (simp add: finish_deps)
  show ?thesis
    unfolding Pair flags_ok_def finish_flags [OF d] finish_deps by simp
qed

lemma step_GateSubmit_mounted:
  assumes "showEmailGate (page \<sigma>)" "swiperRef \<sigma> = Some sw"
    and "snd (handleSubmit \<lparr>email = raw, error = []\<rparr>) = Some a"
  shows "step \<sigma> (GateSubmit raw) =
           finish \<sigma> (Some (sw\<lparr>allowSlideNext := True\<rparr>))
             ((page \<sigma>)\<lparr>hasUnlocked := True, showEmailGate := False\<rparr>,
              snd (snd (handleEmailSubmit (page \<sigma>) (swiperRef \<sigma>) a)))"
  using assms by (simp add: handleEmailSubmit_def Let_def)

lemma step_flags_ok:
  assumes "gate_mounted \<sigma>"
    and "hasUnlocked (page (fst (step \<sigma> e))) \<noteq> hasUnlocked (page \<sigma>)
         \<or> currentIndex (page (fst (step \<sigma> e))) \<noteq> currentIndex (page \<sigma>)"
  shows "flags_ok (fst (step \<sigma> e))"
proof (cases e)
  case (OnSwiper sw)
  with assms(2) show ?thesis
    by (simp del: step.simps add: step_OnSwiper viewedEffect_fields)
next
  case (SlideChange i)
  with assms(2) show ?thesis
    by (cases "swiperRef \<sigma>") (simp_all add: Let_def finish_flags_ok)
next
  case (SlideChangeTransitionStart i)
  with assms(2) show ?thesis
    by (cases "swiperRef \<sigma>") (simp_all add: Let_def finish_flags_ok)
next
  case (TouchMove i td tch ev)
  with assms(2) show ?thesis
    by (cases "swiperRef \<sigma>") (auto simp: Let_def finish_flags_ok split: sum.splits)
next
  case (TouchEnd i td tch)
  with assms(2) show ?thesis
    by (cases "swiperRef \<sigma>") (simp_all add: Let_def finish_flags_ok)
next
  case (GateSubmit raw)
  show ?thesis
  proof (cases "showEmailGate (page \<sigma>)")
    case False
    with GateSubmit assms(2) show ?thesis by simp
  next
    case True
    with assms(1) obtain sw where sw: "swiperRef \<sigma> = Some sw"
      by (auto simp: gate_mounted_def)
    show ?thesis
    proof (cases "snd (handleSubmit \<lparr>email = raw, error = []\<rparr>)")
      case None
      with GateSubmit True assms(2) show ?thesis by simp
    next
      case (Some a)
      note st = step_GateSubmit_mounted [OF True sw Some]
      from assms(2) show ?thesis unfolding GateSubmit st by (rule finish_flags_ok)
    qed
  qed
qed

lemma finish_flags_standing:
  assumes "flags_ok \<lparr>page = page \<sigma>, swiperRef = Some sw\<rparr>"
  shows "flags_ok (fst (finish \<sigma> (Some sw) r))"
proof (cases r)
  case (Pair s' cmds)
  show ?thesis
  proof (cases "hasUnlocked s' \<noteq> hasUnlocked (page \<sigma>) \<or> currentIndex s' \<noteq> currentIndex (page \<sigma>)")
    case True
    then show ?thesis unfolding Pair by (intro finish_flags_ok) (simp add: finish_deps)
  next
    case False
    then show ?thesis using assms unfolding Pair
      by (simp add: finish_same_deps flags_ok_def)
  qed
qed

lemma finish_unmounted: "swiperRef (fst (finish \<sigma> None r)) = None"
  by (simp add: render_defs Let_def split: prod.splits)

lemma flags_ok_observed:
  assumes "flags_ok \<sigma>" "swiperRef \<sigma> = Some sw0"
    and "allowSlideNext sw = allowSlideNext sw0" "resistanceRatio sw = resistanceRatio sw0"
  shows "flags_ok \<lparr>page = page \<sigma>, swiperRef = Some sw\<rparr>"
  using assms by (simp add: flags_ok_def)

lemma step_flags_standing:
  assumes "flags_standing \<sigma>"
  shows "flags_standing (fst (step \<sigma> e))"
proof (cases "swiperRef \<sigma>")
  case None
  show ?thesis
  proof (cases e)
    case (OnSwiper sw)
    show ?thesis unfolding OnSwiper
      by (simp del: step.simps add: flags_standing_def flags_ok_def step_OnSwiper viewedEffect_fields)
  next
    case (GateSubmit raw)
    with None show ?thesis
      by (auto simp: flags_standing_def finish_unmounted handleEmailSubmit_def Let_def
          split: option.splits)
  qed (use None in \<open>simp_all add: flags_standing_def\<close>)
next
  case (Some sw0)
  with assms have ok: "flags_ok \<sigma>" by (simp add: flags_standing_def)
  have obs: "flags_ok \<lparr>page = page \<sigma>, swiperRef = Some sw\<rparr>"
    if "allowSlideNext sw = allowSlideNext sw0" "resistanceRatio sw = resistanceRatio sw0" for sw
    using flags_ok_observed [OF ok Some that] .
  show ?thesis
  proof (cases e)
    case (OnSwiper sw)
    show ?thesis unfolding OnSwiper
      by (simp del: step.simps add: flags_standing_def flags_ok_def step_OnSwiper viewedEffect_fields)
  next
    case (SlideChange i)
    with Some show ?thesis
      by (simp add: flags_standing_def Let_def finish_flags_standing obs)
  next
    case (SlideChangeTransitionStart i)
    with Some show ?thesis
      by (simp add: flags_standing_def Let_def finish_flags_standing obs)
  next
    case (TouchEnd i td tch)
    with Some show ?thesis
      by (simp add: flags_standing_def Let_def finish_flags_standing obs)
  next
    case (TouchMove i td tch ev)
    have "flags_ok (\<sigma>\<lparr>swiperRef := Some (sw0\<lparr>activeIndex := i, touchEventsData := td, touches := tch\<rparr>)\<rparr>)"
      using ok Some by (simp add: flags_ok_def)
    with TouchMove Some show ?thesis
      by (simp add: flags_standing_def Let_def finish_flags_standing obs split: sum.splits)
  next
    case (GateSubmit raw)
    show ?thesis
    proof (cases "showEmailGate (page \<sigma>)")
      case False
      with GateSubmit assms show ?thesis by simp
    next
      case True
      show ?thesis
      proof (cases "snd (handleSubmit \<lparr>email = raw, error = []\<rparr>)")
        case None
        with GateSubmit True assms show ?thesis by simp
      next
        case (Some a)
        note st = step_GateSubmit_mounted [OF True \<open>swiperRef \<sigma> = Some sw0\<close> Some]
        have "flags_ok (fst (step \<sigma> e))"
        proof (cases "hasUnlocked (page \<sigma>)")
          case False
          then show ?thesis unfolding GateSubmit st
            by (intro finish_flags_ok) (simp add: finish_deps)
        next
          case True
          with ok \<open>swiperRef \<sigma> = Some sw0\<close>
          have "flags_ok \<lparr>page = page \<sigma>, swiperRef = Some (sw0\<lparr>allowSlideNext := True\<rparr>)\<rparr>"
            by (simp add: flags_ok_def)
          then show ?thesis unfolding GateSubmit st by (rule finish_flags_standing)
        qed
        then show ?thesis by (simp add: flags_standing_def)
      qed
    qed
  qed
qed

lemma reachable_flags_standing: "reachable \<sigma> \<Longrightarrow> flags_standing \<sigma>"
proof (induction rule: reachable.induct)
  case reach_init
  show ?case by (simp add: flags_standing_def initialApp_def)
next
  case (reach_step \<sigma> e)
  then show ?case by (simp add: step_flags_standing)
qed

text \<open>
  C8. Whenever an event changes \<open>hasUnlocked\<close> or \<open>currentIndex\<close> while a carousel is
  mounted, whatever its flags were, the carousel afterwards has
  \<open>allowSlideNext = (hasUnlocked \<or> currentIndex < 10)\<close> and a resistance ratio of 0.85 when
  unlocked and 0 when locked, for the new values. The effect also runs at the mount, so
  in every reachable state with a carousel the flags have these values; while locked the
  resistance ratio is 0.
\<close>

theorem forward_permission_recomputed:
  "(swiperRef \<sigma> \<noteq> None
      \<and> (hasUnlocked (page (fst (step \<sigma> e))) \<noteq> hasUnlocked (page \<sigma>)
         \<or> currentIndex (page (fst (step \<sigma> e))) \<noteq> currentIndex (page \<sigma>))
    \<longrightarrow> map_option allowSlideNext (swiperRef (fst (step \<sigma> e)))
          = Some (hasUnlocked (page (fst (step \<sigma> e))) \<or> currentIndex (page (fst (step \<sigma> e))) < 10)
      \<and> map_option resistanceRatio (swiperRef (fst (step \<sigma> e)))
          = Some (if hasUnlocked (page (fst (step \<sigma> e))) then 0.85 else 0))
   \<and> (reachable \<tau> \<and> swiperRef \<tau> \<noteq> None
    \<longrightarrow> map_option allowSlideNext (swiperRef \<tau>)
          = Some (hasUnlocked (page \<tau>) \<or> currentIndex (page \<tau>) < 10)
      \<and> map_option resistanceRatio (swiperRef \<tau>)
          = Some (if hasUnlocked (page \<tau>) then 0.85 else 0))"
proof -
  have "flags_ok (fst (step \<sigma> e))"
    if "swiperRef \<sigma> \<noteq> None"
      and "hasUnlocked (page (fst (step \<sigma> e))) \<noteq> hasUnlocked (page \<sigma>)
         \<or> currentIndex (page (fst (step \<sigma> e))) \<noteq> currentIndex (page \<sigma>)"
  proof -
    from that(1) have "gate_mounted \<sigma>" by (simp add: gate_mounted_def)
    from step_flags_ok [OF this that(2)] show ?thesis .
  qed
  moreover have "flags_ok \<tau>" if "reachable \<tau>" "swiperRef \<tau> \<noteq> None"
    using reachable_flags_standing [OF that(1)] that(2) by (simp add: flags_standing_def)
  ultimately show ?thesis unfolding flags_ok_def by blast
qed

theorem forward_permission_recomputed_witness:
  "swiperRef staleApp \<noteq> None
   \<and> map_option allowSlideNext (swiperRef staleApp) = Some False
   \<and> map_option resistanceRatio (swiperRef staleApp) = Some 1
   \<and> currentIndex (page staleApp) = 0
   \<and> currentIndex (page (fst (step staleApp (SlideChange 3)))) = 3
   \<and> \<not> hasUnlocked (page (fst (step staleApp (SlideChange 3))))
   \<and> map_option allowSlideNext (swiperRef (fst (step staleApp (SlideChange 3)))) = Some True
   \<and> map_option resistanceRatio (swiperRef (fst (step staleApp (SlideChange 3)))) = Some 0
   \<and> reachable (exec initialApp [OnSwiper (sampleSwiper\<lparr>resistanceRatio := 1\<rparr>)])
   \<and> \<not> hasUnlocked (page (exec initialApp [OnSwiper (sampleSwiper\<lparr>resistanceRatio := 1\<rparr>)]))
   \<and> map_option allowSlideNext
        (swiperRef (exec initialApp [OnSwiper (sampleSwiper\<lparr>resistanceRatio := 1\<rparr>)])) = Some True
   \<and> map_option resistanceRatio
        (swiperRef (exec initialApp [OnSwiper (sampleSwiper\<lparr>resistanceRatio := 1\<rparr>)])) = Some 0"
proof -
  have a: "swiperRef staleApp \<noteq> None"
    "map_option allowSlideNext (swiperRef staleApp) = Some False"
    "map_option resistanceRatio (swiperRef staleApp) = Some 1"
    "currentIndex (page staleApp) = 0"
    by (simp_all add: staleApp_def initialSession_def)
  have b: "currentIndex (page (fst (step staleApp (SlideChange 3)))) = 3"
    "\<not> hasUnlocked (page (fst (step staleApp (SlideChange 3))))"
    by (simp_all add: staleApp_def eval_defs)
  have r: "reachable (exec initialApp [OnSwiper (sampleSwiper\<lparr>resistanceRatio := 1\<rparr>)])"
    by (rule reachable_exec [OF reachable.reach_init])
  have m: "swiperRef (exec initialApp [OnSwiper (sampleSwiper\<lparr>resistanceRatio := 1\<rparr>)]) \<noteq> None"
    "\<not> hasUnlocked (page (exec initialApp [OnSwiper (sampleSwiper\<lparr>resistanceRatio := 1\<rparr>)]))"
    "currentIndex (page (exec initialApp [OnSwiper (sampleSwiper\<lparr>resistanceRatio := 1\<rparr>)])) = 0"
    by (simp_all del: step.simps add: step_OnSwiper viewedEffect_fields initialApp_def initialSession_def)
  from forward_permission_recomputed [of staleApp "SlideChange 3"
      "exec initialApp [OnSwiper (sampleSwiper\<lparr>resistanceRatio := 1\<rparr>)]"] a b r m
  show ?thesis by (simp del: step.simps exec.simps)
qed

section \<open>Touch handlers at the limit\<close>

lemma touch_handlers_without_startX:
  assumes "touchEventsData sw = Some td" "startX td = None"
  shows "handleTouchEnd s sw = (s, [])"
    and "handleTouchMove s sw (Some ts) = Inr (s, [])"
    and "handleTouchMove s sw None =
           (if \<not> hasUnlocked s \<and> activeIndex sw = 9 then Inl TypeError else Inr (s, []))"
  using assms by (simp_all add: handleTouchEnd_def handleTouchMove_def)

text \<open>
  C9. Locked at index 9, a drag from x = 300 to x = 100, as the library reports it: the
  coordinates are in \<open>swiper.touches\<close>, and \<open>swiper.touchEventsData\<close> has no \<open>startX\<close>. The
  difference is below \<open>-50\<close>, yet \<open>handleTouchEnd\<close> and \<open>handleTouchMove\<close> leave the session
  as it is and issue nothing, for a touch event at x = 100 and for an event without
  \<open>touches\<close>, where \<open>handleTouchMove\<close> throws: both read \<open>startX\<close> from
  \<open>touchEventsData\<close>, find it undefined and skip the comparison.
\<close>

theorem touch_handlers_miss_the_drag:
  "\<not> hasUnlocked (page lockedAtNine) \<and> \<not> showEmailGate (page lockedAtNine)
   \<and> diff_below_minus50 100 300
   \<and> step lockedAtNine
        (TouchEnd 9 (Some \<lparr>startX = None, currentX = None\<rparr>)
           \<lparr>startX = Some 300, currentX = Some 100\<rparr>)
      = (lockedAtNine\<lparr>swiperRef := Some (sampleSwiper
           \<lparr>activeIndex := 9, touches := \<lparr>startX = Some 300, currentX = Some 100\<rparr>\<rparr>)\<rparr>, [])
   \<and> step lockedAtNine
        (TouchMove 9 (Some \<lparr>startX = None, currentX = None\<rparr>)
           \<lparr>startX = Some 300, currentX = Some 100\<rparr> (Some [\<lparr>clientX = 100\<rparr>]))
      = (lockedAtNine\<lparr>swiperRef := Some (sampleSwiper
           \<lparr>activeIndex := 9, touches := \<lparr>startX = Some 300, currentX = Some 100\<rparr>\<rparr>)\<rparr>, [])
   \<and> step lockedAtNine
        (TouchMove 9 (Some \<lparr>startX = None, currentX = None\<rparr>)
           \<lparr>startX = Some 300, currentX = Some 100\<rparr> None)
      = (lockedAtNine\<lparr>swiperRef := Some (sampleSwiper
           \<lparr>activeIndex := 9, touches := \<lparr>startX = Some 300, currentX = Some 100\<rparr>\<rparr>)\<rparr>, [])"
  by (simp add: lockedAtNine_def diff_below_minus50_def eval_defs)

end
